theory Spec2Isabelle
  imports Main "HOL-Library.Sublist" "HOL-Library.Product_Lexorder"
begin

section \<open>Python strings\<close>

text \<open>
  The script \<^verbatim>\<open>scripts/bump_versions.py\<close> works on Python \<^verbatim>\<open>str\<close> values. They are
  modelled as \<^typ>\<open>string\<close>, one \<^typ>\<open>char\<close> per code point, which covers the code points
  below 256. Exceptions are values of the type \<open>error\<close>; a function that can raise returns
  a sum with \<open>Inl\<close> for the exception.
\<close>

datatype error =
    FileNotFoundError "string list"
  | KeyError string
  | IndexError
  | ValueError
  | AssertionError
  | EOFError
  | Exception string
  | Unmodelled string

text \<open>\<^verbatim>\<open>str.isspace\<close> on one character, for the code points below 256.\<close>

definition isspace :: "char \<Rightarrow> bool" where
  "isspace c = (of_char c \<in> {9, 10, 11, 12, 13, 28, 29, 30, 31, 32, 133, 160 :: nat})"

text \<open>\<^verbatim>\<open>str.strip()\<close>: leading and trailing whitespace is removed.\<close>

definition strip :: "string \<Rightarrow> string" where
  "strip s = rev (dropWhile isspace (rev (dropWhile isspace s)))"

text \<open>
  \<^verbatim>\<open>s.replace(old, new)\<close>. With a non-empty \<open>old\<close> the text is scanned from the left; at
  each occurrence of \<open>old\<close> the replacement is emitted and the scan goes on behind the
  occurrence. With an empty \<open>old\<close> Python puts \<open>new\<close> before every character and at the end.
\<close>

function replace_nonempty :: "string \<Rightarrow> string \<Rightarrow> string \<Rightarrow> string" where
  "replace_nonempty [] old new = []"
| "replace_nonempty (c # cs) old new =
     (if old \<noteq> [] \<and> prefix old (c # cs)
      then new @ replace_nonempty (drop (length old) (c # cs)) old new
      else c # replace_nonempty cs old new)"
  by pat_completeness auto
termination
  by (relation "measure (\<lambda>(s, old, new). length s)") (auto simp: Suc_le_eq)

definition str_replace :: "string \<Rightarrow> string \<Rightarrow> string \<Rightarrow> string" where
  "str_replace s old new =
     (if old = [] then new @ concat (map (\<lambda>c. c # new) s)
      else replace_nonempty s old new)"

text \<open>
  \<^verbatim>\<open>template.format(name=val)\<close> with one keyword argument that is a string. The format
  string is read from the left: \<^verbatim>\<open>{{\<close> and \<^verbatim>\<open>}}\<close> are literal braces, \<^verbatim>\<open>{name}\<close> is replaced
  by the value, a brace that is alone raises \<^verbatim>\<open>ValueError\<close>, a field with another name
  raises \<^verbatim>\<open>KeyError\<close>, and an empty or numeric field raises \<^verbatim>\<open>IndexError\<close> since there is
  no positional argument. Fields with a conversion, a format specification, an attribute
  or an index (the characters \<^verbatim>\<open>! : . [ {\<close> inside the braces) are outside the fragment
  modelled here and yield \<open>Unmodelled\<close>.
\<close>

definition field_error :: "string \<Rightarrow> error" where
  "field_error fld =
     (if list_ex (\<lambda>c. c \<in> set ''{!:.['') fld then Unmodelled fld
      else if list_all (\<lambda>c. c \<in> set ''0123456789'') fld then IndexError
      else KeyError fld)"

function format_str :: "string \<Rightarrow> string \<Rightarrow> string \<Rightarrow> error + string" where
  "format_str kw val [] = Inr []"
| "format_str kw val (c # cs) =
     (if c = CHR ''{'' then
        (if cs \<noteq> [] \<and> hd cs = CHR ''{'' then
           (case format_str kw val (tl cs) of
              Inl e \<Rightarrow> Inl e | Inr r \<Rightarrow> Inr (CHR ''{'' # r))
         else if CHR ''}'' \<notin> set cs then Inl ValueError
         else if takeWhile (\<lambda>x. x \<noteq> CHR ''}'') cs = kw then
           (case format_str kw val (tl (dropWhile (\<lambda>x. x \<noteq> CHR ''}'') cs)) of
              Inl e \<Rightarrow> Inl e | Inr r \<Rightarrow> Inr (val @ r))
         else Inl (field_error (takeWhile (\<lambda>x. x \<noteq> CHR ''}'') cs)))
      else if c = CHR ''}'' then
        (if cs \<noteq> [] \<and> hd cs = CHR ''}'' then
           (case format_str kw val (tl cs) of
              Inl e \<Rightarrow> Inl e | Inr r \<Rightarrow> Inr (CHR ''}'' # r))
         else Inl ValueError)
      else
        (case format_str kw val cs of
           Inl e \<Rightarrow> Inl e | Inr r \<Rightarrow> Inr (c # r)))"
  by pat_completeness auto
termination
  by (relation "measure (\<lambda>(kw, val, t). length t)")
     (auto simp: less_Suc_eq_le length_dropWhile_le intro: le_trans [OF diff_le_self])

text \<open>\<^verbatim>\<open>sep.join(xs)\<close>.\<close>

fun join :: "string \<Rightarrow> string list \<Rightarrow> string" where
  "join sep [] = []"
| "join sep [x] = x"
| "join sep (x # y # ys) = x @ sep @ join sep (y # ys)"

text \<open>
  \<^verbatim>\<open>str.splitlines()\<close>: the text is cut at every line boundary (\<^verbatim>\<open>\n\<close>, \<^verbatim>\<open>\r\<close>, \<^verbatim>\<open>\r\n\<close>,
  \<^verbatim>\<open>\v\<close>, \<^verbatim>\<open>\f\<close>, \<^verbatim>\<open>\x1c\<close>, \<^verbatim>\<open>\x1d\<close>, \<^verbatim>\<open>\x1e\<close>, \<^verbatim>\<open>\x85\<close>); the boundaries are dropped and a
  boundary at the very end opens no further line.
\<close>

definition is_linebreak :: "char \<Rightarrow> bool" where
  "is_linebreak c = (of_char c \<in> {10, 11, 12, 13, 28, 29, 30, 133 :: nat})"

fun splitlines_from :: "string \<Rightarrow> string \<Rightarrow> string list" where
  "splitlines_from cur [] = (if cur = [] then [] else [cur])"
| "splitlines_from cur (c # cs) =
     (if c = CHR 0x0D then
        (case cs of
           [] \<Rightarrow> [cur]
         | d # ds \<Rightarrow> if d = CHR 0x0A then cur # splitlines_from [] ds
                     else cur # splitlines_from [] (d # ds))
      else if is_linebreak c then cur # splitlines_from [] cs
      else splitlines_from (cur @ [c]) cs)"

definition splitlines :: "string \<Rightarrow> string list" where
  "splitlines s = splitlines_from [] s"

text \<open>The decimal numeral of a natural number, as \<^verbatim>\<open>'{}'.format(n)\<close> prints it.\<close>

function str_nat :: "nat \<Rightarrow> string" where
  "str_nat n =
     (if n < 10 then [char_of (48 + n)]
      else str_nat (n div 10) @ [char_of (48 + n mod 10)])"
  by pat_completeness auto
termination
  by (relation "measure id") auto

section \<open>The diff of the dry run: \<^verbatim>\<open>difflib.context_diff\<close>\<close>

text \<open>
  The dry run prints \<^verbatim>\<open>difflib.context_diff(a, b, fromfile, tofile, n=4)\<close> of the lines of
  the old and the new content. The library code is followed function by function:
  \<^verbatim>\<open>SequenceMatcher(None, a, b)\<close> with its \<^verbatim>\<open>b2j\<close> index (\<open>chain_b\<close>),
  \<^verbatim>\<open>find_longest_match\<close>, \<^verbatim>\<open>get_matching_blocks\<close>, \<^verbatim>\<open>get_opcodes\<close>,
  \<^verbatim>\<open>get_grouped_opcodes\<close>, and the formatting of \<^verbatim>\<open>context_diff\<close>. No junk predicate is
  given, so the set \<^verbatim>\<open>bjunk\<close> is empty and the two loops of \<^verbatim>\<open>find_longest_match\<close> that
  extend a match over junk never run; they are left out.
\<close>

datatype tag = Replace | Delete | Insert | Equal

type_synonym match = "nat \<times> nat \<times> nat"
type_synonym opcode = "tag \<times> nat \<times> nat \<times> nat \<times> nat"

text \<open>
  \<^verbatim>\<open>b2j[elt]\<close>: the indices of \<open>elt\<close> in \<open>b\<close>, in increasing order. When \<open>b\<close> has 200
  elements or more, an element that occurs more than \<open>n // 100 + 1\<close> times is popular and
  is removed from the index.
\<close>

definition chain_b :: "string list \<Rightarrow> string \<Rightarrow> nat list" where
  "chain_b b elt =
     (let indices = filter (\<lambda>i. b ! i = elt) [0..<length b]; n = length b
      in if n \<ge> 200 \<and> length indices > n div 100 + 1 then [] else indices)"

text \<open>
  The inner loop of \<^verbatim>\<open>find_longest_match\<close> for one \<open>i\<close>, over the indices \<open>j\<close> of \<open>a[i]\<close> in
  \<open>b\<close>. The dictionary \<^verbatim>\<open>j2len\<close> is a function with the default 0 of \<^verbatim>\<open>j2len.get(j-1, 0)\<close>;
  for \<open>j = 0\<close> the key \<open>-1\<close> is never present.
  \<^verbatim>\<open>
  for j in b2j.get(a[i], nothing):
      if j < blo: continue
      if j >= bhi: break
      k = newj2len[j] = j2lenget(j-1, 0) + 1
      if k > bestsize:
          besti, bestj, bestsize = i-k+1, j-k+1, k
  \<close>
\<close>

fun scan_row :: "nat \<Rightarrow> nat \<Rightarrow> nat \<Rightarrow> (nat \<Rightarrow> nat) \<Rightarrow> nat list
    \<Rightarrow> match \<times> (nat \<Rightarrow> nat) \<Rightarrow> match \<times> (nat \<Rightarrow> nat)" where
  "scan_row i blo bhi j2len [] acc = acc"
| "scan_row i blo bhi j2len (j # js) (best, newj2len) =
     (if j < blo then scan_row i blo bhi j2len js (best, newj2len)
      else if j \<ge> bhi then (best, newj2len)
      else
        (let k = (if j = 0 then 0 else j2len (j - 1)) + 1
         in scan_row i blo bhi j2len js
              (if k > snd (snd best) then (i + 1 - k, j + 1 - k, k) else best,
               newj2len(j := k))))"

function extend_back :: "string list \<Rightarrow> string list \<Rightarrow> nat \<Rightarrow> nat \<Rightarrow> match \<Rightarrow> match" where
  "extend_back a b alo blo (besti, bestj, bestsize) =
     (if besti > alo \<and> bestj > blo \<and> a ! (besti - 1) = b ! (bestj - 1)
      then extend_back a b alo blo (besti - 1, bestj - 1, bestsize + 1)
      else (besti, bestj, bestsize))"
  by pat_completeness auto
termination
  by (relation "measure (\<lambda>(a, b, alo, blo, besti, bestj, bestsize). besti)") auto

function extend_forward :: "string list \<Rightarrow> string list \<Rightarrow> nat \<Rightarrow> nat \<Rightarrow> match \<Rightarrow> match" where
  "extend_forward a b ahi bhi (besti, bestj, bestsize) =
     (if besti + bestsize < ahi \<and> bestj + bestsize < bhi
         \<and> a ! (besti + bestsize) = b ! (bestj + bestsize)
      then extend_forward a b ahi bhi (besti, bestj, bestsize + 1)
      else (besti, bestj, bestsize))"
  by pat_completeness auto
termination
  by (relation "measure (\<lambda>(a, b, ahi, bhi, besti, bestj, bestsize). ahi - (besti + bestsize))") auto

definition find_longest_match ::
    "string list \<Rightarrow> string list \<Rightarrow> nat \<Rightarrow> nat \<Rightarrow> nat \<Rightarrow> nat \<Rightarrow> match" where
  "find_longest_match a b alo ahi blo bhi =
     (let rows = fold (\<lambda>i (best, j2len). scan_row i blo bhi j2len (chain_b b (a ! i)) (best, \<lambda>_. 0))
                   [alo..<ahi] ((alo, blo, 0), \<lambda>_. 0)
      in extend_forward a b ahi bhi (extend_back a b alo blo (fst rows)))"

text \<open>
  A match lies inside the window of \<open>a\<close> it was looked for in. The loop of
  \<^verbatim>\<open>get_matching_blocks\<close> terminates for this reason.
\<close>

lemma scan_row_bounds:
  assumes "alo \<le> i" "\<forall>j. j2len j \<le> i - alo" "\<forall>j. newj2len j \<le> Suc i - alo"
    and "alo \<le> fst best" "fst best + snd (snd best) \<le> Suc i"
    and "scan_row i blo bhi j2len js (best, newj2len) = (best', newj2len')"
  shows "(\<forall>j. newj2len' j \<le> Suc i - alo) \<and> alo \<le> fst best'
         \<and> fst best' + snd (snd best') \<le> Suc i"
  using assms
proof (induction js arbitrary: best newj2len)
  case Nil
  then show ?case by simp
next
  case (Cons j js)
  show ?case
  proof (cases "j < blo")
    case True
    with Cons.prems have "scan_row i blo bhi j2len js (best, newj2len) = (best', newj2len')"
      by simp
    from Cons.IH [OF Cons.prems(1-5) this] show ?thesis .
  next
    case nlo: False
    show ?thesis
    proof (cases "j \<ge> bhi")
      case True
      with nlo Cons.prems show ?thesis by simp
    next
      case False
      define k where "k = (if j = 0 then 0 else j2len (j - 1)) + 1"
      define best2 where "best2 = (if k > snd (snd best) then (i + 1 - k, j + 1 - k, k) else best)"
      have "j2len (j - 1) \<le> i - alo"
        using Cons.prems(2) by blast
      then have k: "k \<le> Suc i - alo" "0 < k"
        using Cons.prems(1) by (auto simp: k_def)
      have "scan_row i blo bhi j2len (j # js) (best, newj2len)
              = scan_row i blo bhi j2len js (best2, newj2len(j := k))"
        unfolding k_def best2_def using nlo False by (simp add: Let_def)
      with Cons.prems(6)
      have run: "scan_row i blo bhi j2len js (best2, newj2len(j := k)) = (best', newj2len')"
        by simp
      have a: "\<forall>ja. (newj2len(j := k)) ja \<le> Suc i - alo"
        using Cons.prems(3) k by simp
      have b: "alo \<le> fst best2"
        using Cons.prems(1,4) k by (auto simp: best2_def)
      have c: "fst best2 + snd (snd best2) \<le> Suc i"
        using Cons.prems(1,5) k by (auto simp: best2_def)
      from Cons.IH [OF Cons.prems(1,2) a b c run] show ?thesis .
    qed
  qed
qed

lemma rows_bounds:
  "fold (\<lambda>i (best, j2len). scan_row i blo bhi j2len (f i) (best, \<lambda>_. 0))
        [alo..<alo + n] ((alo, blo, 0), \<lambda>_. 0) = (best, j2len)
   \<Longrightarrow> (\<forall>j. j2len j \<le> n) \<and> alo \<le> fst best \<and> fst best + snd (snd best) \<le> alo + n"
proof (induction n arbitrary: best j2len)
  case 0
  then show ?case by auto
next
  case (Suc n)
  obtain best0 j2len0 where prev:
    "fold (\<lambda>i (best, j2len). scan_row i blo bhi j2len (f i) (best, \<lambda>_. 0))
        [alo..<alo + n] ((alo, blo, 0), \<lambda>_. 0) = (best0, j2len0)"
    by (cases "fold (\<lambda>i (best, j2len). scan_row i blo bhi j2len (f i) (best, \<lambda>_. 0))
        [alo..<alo + n] ((alo, blo, 0), \<lambda>_. 0)") blast
  from Suc.IH [OF prev] have ih: "\<forall>j. j2len0 j \<le> alo + n - alo" "alo \<le> fst best0"
    "fst best0 + snd (snd best0) \<le> Suc (alo + n)"
    by auto
  from Suc.prems prev
  have step: "scan_row (alo + n) blo bhi j2len0 (f (alo + n)) (best0, \<lambda>_. 0) = (best, j2len)"
    by simp
  have "(\<forall>j. j2len j \<le> Suc (alo + n) - alo) \<and> alo \<le> fst best
         \<and> fst best + snd (snd best) \<le> Suc (alo + n)"
    by (rule scan_row_bounds [OF _ ih(1) _ ih(2,3) step]) auto
  then show ?case by simp
qed

lemma extend_back_bounds:
  "extend_back a b alo blo m = m' \<Longrightarrow> alo \<le> fst m
   \<Longrightarrow> alo \<le> fst m' \<and> fst m' + snd (snd m') = fst m + snd (snd m)"
proof (induction a b alo blo m rule: extend_back.induct)
  case (1 a b alo blo besti bestj bestsize)
  show ?case
  proof (cases "besti > alo \<and> bestj > blo \<and> a ! (besti - 1) = b ! (bestj - 1)")
    case True
    with "1.prems" have run: "extend_back a b alo blo (besti - 1, bestj - 1, bestsize + 1) = m'"
      by simp
    have "alo \<le> fst (besti - 1, bestj - 1, bestsize + 1)"
      using True by auto
    from "1.IH" [OF True run this] True show ?thesis by auto
  next
    case False
    with "1.prems" show ?thesis by auto
  qed
qed

lemma extend_forward_bounds:
  "extend_forward a b ahi bhi m = m' \<Longrightarrow> fst m + snd (snd m) \<le> max lo ahi
   \<Longrightarrow> fst m' = fst m \<and> fst m' + snd (snd m') \<le> max lo ahi"
proof (induction a b ahi bhi m rule: extend_forward.induct)
  case (1 a b ahi bhi besti bestj bestsize)
  show ?case
  proof (cases "besti + bestsize < ahi \<and> bestj + bestsize < bhi
         \<and> a ! (besti + bestsize) = b ! (bestj + bestsize)")
    case True
    with "1.prems" have run: "extend_forward a b ahi bhi (besti, bestj, bestsize + 1) = m'"
      by simp
    have "fst (besti, bestj, bestsize + 1) + snd (snd (besti, bestj, bestsize + 1)) \<le> max lo ahi"
      using True by auto
    from "1.IH" [OF True run this] show ?thesis by simp
  next
    case False
    with "1.prems" show ?thesis by auto
  qed
qed

lemma find_longest_match_bounds:
  assumes "find_longest_match a b alo ahi blo bhi = (i, j, k)"
  shows "alo \<le> i \<and> i + k \<le> max alo ahi"
proof -
  define rows where "rows = fold (\<lambda>i (best, j2len).
      scan_row i blo bhi j2len (chain_b b (a ! i)) (best, \<lambda>_. 0))
      [alo..<ahi] ((alo, blo, 0), \<lambda>_. 0)"
  have r: "alo \<le> fst (fst rows) \<and> fst (fst rows) + snd (snd (fst rows)) \<le> max alo ahi"
  proof (cases "alo \<le> ahi")
    case True
    then have "[alo..<ahi] = [alo..<alo + (ahi - alo)]" by simp
    then have "fold (\<lambda>i (best, j2len).
      scan_row i blo bhi j2len (chain_b b (a ! i)) (best, \<lambda>_. 0))
      [alo..<alo + (ahi - alo)] ((alo, blo, 0), \<lambda>_. 0) = (fst rows, snd rows)"
      by (simp add: rows_def)
    from rows_bounds [OF this] True show ?thesis by simp
  next
    case False
    then show ?thesis by (simp add: rows_def)
  qed
  obtain m1 where m1: "extend_back a b alo blo (fst rows) = m1" by blast
  from extend_back_bounds [OF m1] r
  have b1: "alo \<le> fst m1" "fst m1 + snd (snd m1) \<le> max alo ahi"
    by auto
  have "extend_forward a b ahi bhi m1 = (i, j, k)"
    using assms m1 by (simp add: find_longest_match_def rows_def Let_def)
  from extend_forward_bounds [OF this b1(2)] b1(1) show ?thesis by simp
qed

text \<open>
  The work list of \<^verbatim>\<open>get_matching_blocks\<close>. \<^verbatim>\<open>queue.pop()\<close> takes the last element of the
  Python list, which is the head of the list here.
  \<^verbatim>\<open>
  while queue:
      alo, ahi, blo, bhi = queue.pop()
      i, j, k = x = self.find_longest_match(alo, ahi, blo, bhi)
      if k:
          matching_blocks.append(x)
          if alo < i and blo < j: queue.append((alo, i, blo, j))
          if i+k < ahi and j+k < bhi: queue.append((i+k, ahi, j+k, bhi))
  \<close>
\<close>

function matching_loop :: "string list \<Rightarrow> string list \<Rightarrow> (nat \<times> nat \<times> nat \<times> nat) list
    \<Rightarrow> match list \<Rightarrow> match list" where
  "matching_loop a b [] matching_blocks = matching_blocks"
| "matching_loop a b ((alo, ahi, blo, bhi) # queue) matching_blocks =
     (case find_longest_match a b alo ahi blo bhi of
        (i, j, k) \<Rightarrow>
          if k \<noteq> 0 then
            matching_loop a b
              ((if i + k < ahi \<and> j + k < bhi then [(i + k, ahi, j + k, bhi)] else []) @
               (if alo < i \<and> blo < j then [(alo, i, blo, j)] else []) @ queue)
              (matching_blocks @ [(i, j, k)])
          else matching_loop a b queue matching_blocks)"
  by pat_completeness auto
termination
proof (relation "measure (\<lambda>(a, b, queue, blocks).
          sum_list (map (\<lambda>(alo, ahi, blo, bhi). 2 * (ahi - alo) + 1) queue))", goal_cases)
  case 1
  show ?case by simp
next
  case (2 a b alo ahi blo bhi queue matching_blocks i y j k)
  then have "find_longest_match a b alo ahi blo bhi = (i, j, k)" by simp
  from find_longest_match_bounds [OF this] 2(3) show ?case
    by (auto simp: max_def split: if_splits)
next
  case 3
  then show ?case by simp
qed

text \<open>Adjacent blocks are merged after \<^verbatim>\<open>matching_blocks.sort()\<close>; a sentinel ends the list.\<close>

fun collapse :: "match \<Rightarrow> match list \<Rightarrow> match list" where
  "collapse (i1, j1, k1) [] = (if k1 \<noteq> 0 then [(i1, j1, k1)] else [])"
| "collapse (i1, j1, k1) ((i2, j2, k2) # rest) =
     (if i1 + k1 = i2 \<and> j1 + k1 = j2 then collapse (i1, j1, k1 + k2) rest
      else (if k1 \<noteq> 0 then [(i1, j1, k1)] else []) @ collapse (i2, j2, k2) rest)"

definition get_matching_blocks :: "string list \<Rightarrow> string list \<Rightarrow> match list" where
  "get_matching_blocks a b =
     collapse (0, 0, 0) (sort (matching_loop a b [(0, length a, 0, length b)] []))
       @ [(length a, length b, 0)]"

fun opcodes_from :: "nat \<Rightarrow> nat \<Rightarrow> match list \<Rightarrow> opcode list" where
  "opcodes_from i j [] = []"
| "opcodes_from i j ((ai, bj, sz) # rest) =
     (if i < ai \<and> j < bj then [(Replace, i, ai, j, bj)]
      else if i < ai then [(Delete, i, ai, j, bj)]
      else if j < bj then [(Insert, i, ai, j, bj)]
      else [])
     @ (if sz \<noteq> 0 then [(Equal, ai, ai + sz, bj, bj + sz)] else [])
     @ opcodes_from (ai + sz) (bj + sz) rest"

definition get_opcodes :: "string list \<Rightarrow> string list \<Rightarrow> opcode list" where
  "get_opcodes a b = opcodes_from 0 0 (get_matching_blocks a b)"

text \<open>
  \<^verbatim>\<open>get_grouped_opcodes(n)\<close>: the first and the last opcode are cut to \<open>n\<close> lines of
  context when they are \<^verbatim>\<open>equal\<close>, and a run of more than \<open>2n\<close> equal lines ends a group.
  The differences \<open>i2 - n\<close> below zero are cut off at zero, under the \<open>max\<close> with \<open>i1\<close> as
  in Python.
\<close>

fun group_loop :: "nat \<Rightarrow> opcode list \<Rightarrow> opcode list \<Rightarrow> opcode list list" where
  "group_loop n grp [] =
     (if grp \<noteq> [] \<and> \<not> (length grp = 1 \<and> fst (hd grp) = Equal) then [grp] else [])"
| "group_loop n grp ((tag, i1, i2, j1, j2) # codes) =
     (if tag = Equal \<and> i2 - i1 > n + n
      then (grp @ [(tag, i1, min i2 (i1 + n), j1, min j2 (j1 + n))])
             # group_loop n [(tag, max i1 (i2 - n), i2, max j1 (j2 - n), j2)] codes
      else group_loop n (grp @ [(tag, i1, i2, j1, j2)]) codes)"

definition fix_first :: "nat \<Rightarrow> opcode list \<Rightarrow> opcode list" where
  "fix_first n codes =
     (case hd codes of (tag, i1, i2, j1, j2) \<Rightarrow>
        if tag = Equal then (tag, max i1 (i2 - n), i2, max j1 (j2 - n), j2) # tl codes
        else codes)"

definition fix_last :: "nat \<Rightarrow> opcode list \<Rightarrow> opcode list" where
  "fix_last n codes =
     (case last codes of (tag, i1, i2, j1, j2) \<Rightarrow>
        if tag = Equal then butlast codes @ [(tag, i1, min i2 (i1 + n), j1, min j2 (j1 + n))]
        else codes)"

definition get_grouped_opcodes :: "string list \<Rightarrow> string list \<Rightarrow> nat \<Rightarrow> opcode list list" where
  "get_grouped_opcodes a b n =
     (let codes = get_opcodes a b;
          codes = (if codes = [] then [(Equal, 0, 1, 0, 1)] else codes)
      in group_loop n [] (fix_last n (fix_first n codes)))"

text \<open>The formatting of \<^verbatim>\<open>context_diff\<close>, with the default \<^verbatim>\<open>lineterm='\n'\<close> and no dates.\<close>

definition lineterm :: string where
  "lineterm = [CHR 0x0A]"

definition tag_prefix :: "tag \<Rightarrow> string" where
  "tag_prefix t = (case t of Insert \<Rightarrow> ''+ '' | Delete \<Rightarrow> ''- '' | Replace \<Rightarrow> ''! '' | Equal \<Rightarrow> ''  '')"

definition slice :: "'a list \<Rightarrow> nat \<Rightarrow> nat \<Rightarrow> 'a list" where
  "slice xs i1 i2 = take (i2 - i1) (drop i1 xs)"

definition format_range_context :: "nat \<Rightarrow> nat \<Rightarrow> string" where
  "format_range_context start stop =
     (let len = stop - start;
          beginning = (if len = 0 then start + 1 - 1 else start + 1)
      in if len \<le> 1 then str_nat beginning
         else str_nat beginning @ '','' @ str_nat (beginning + len - 1))"

definition context_group :: "string list \<Rightarrow> string list \<Rightarrow> opcode list \<Rightarrow> string list" where
  "context_group a b grp =
     (case (hd grp, last grp) of
        ((_, first1, _, first3, _), (_, _, last2, _, last4)) \<Rightarrow>
          [''***************'' @ lineterm,
           ''*** '' @ format_range_context first1 last2 @ '' ****'' @ lineterm]
          @ (if list_ex (\<lambda>(tag, _). tag = Replace \<or> tag = Delete) grp
             then concat (map (\<lambda>(tag, i1, i2, _, _).
                     if tag \<noteq> Insert then map (\<lambda>line. tag_prefix tag @ line) (slice a i1 i2)
                     else []) grp)
             else [])
          @ [''--- '' @ format_range_context first3 last4 @ '' ----'' @ lineterm]
          @ (if list_ex (\<lambda>(tag, _). tag = Replace \<or> tag = Insert) grp
             then concat (map (\<lambda>(tag, _, _, j1, j2).
                     if tag \<noteq> Delete then map (\<lambda>line. tag_prefix tag @ line) (slice b j1 j2)
                     else []) grp)
             else []))"

definition context_diff :: "string list \<Rightarrow> string list \<Rightarrow> string \<Rightarrow> string \<Rightarrow> nat \<Rightarrow> string list" where
  "context_diff a b fromfile tofile n =
     (let groups = get_grouped_opcodes a b n
      in (if groups = [] then []
          else [''*** '' @ fromfile @ lineterm, ''--- '' @ tofile @ lineterm])
         @ concat (map (context_group a b) groups))"

section \<open>Paths, files and the terminal\<close>

text \<open>
  A \<^verbatim>\<open>pathlib.Path\<close> is its list of components and whether it starts at the root. The
  file store maps the components of an absolute path to the text of the file; a relative
  path is read from the working directory \<^verbatim>\<open>ROOT = Path.cwd()\<close>. Only text files that can
  be read and written are in the store, and the text of a file is what \<^verbatim>\<open>read_text\<close>
  returns and \<^verbatim>\<open>write_text\<close> is given: the encoding and the translation of line ends
  between the text and the bytes on the disk, links and \<^verbatim>\<open>..\<close> components are not
  modelled. The events record the reads, the writes, what is printed and the prompts, in
  the order in which they happen.
\<close>

record path =
  absolute :: bool
  parts :: "string list"

definition Path :: "string list \<Rightarrow> path" where
  "Path ps = \<lparr>absolute = False, parts = ps\<rparr>"

datatype event =
    ReadText "string list"
  | WriteText "string list" string
  | Print string
  | Input string

record world =
  files :: "string list \<rightharpoonup> string"
  stdin :: "string list"
  events :: "event list"

datatype outcome = Returned | Raised error

text \<open>
  The names the script imports from the modules \<^verbatim>\<open>integrity\<close> and \<^verbatim>\<open>versions\<close>, which are
  not part of the script, and its working directory.
\<close>

record env =
  ROOT :: "string list"
  CHANGELOG :: path
  PIPELINE :: path
  JUPYTER_LSP_VERSION :: string
  JUPYTERLAB_LSP_VERSION :: string
  JUPYTERLAB_VERSION :: string
  REQUIRED_JUPYTERLAB :: string

definition resolve :: "env \<Rightarrow> path \<Rightarrow> string list" where
  "resolve e p = (if absolute p then parts p else ROOT e @ parts p)"

definition path_str :: "path \<Rightarrow> string" where
  "path_str p =
     (if absolute p then ''/'' @ join ''/'' (parts p)
      else if parts p = [] then ''.'' else join ''/'' (parts p))"

text \<open>\<^verbatim>\<open>path.relative_to(ROOT)\<close> for an absolute path.\<close>

definition relative_to :: "env \<Rightarrow> path \<Rightarrow> error + path" where
  "relative_to e p =
     (if prefix (ROOT e) (parts p)
      then Inr \<lparr>absolute = False, parts = drop (length (ROOT e)) (parts p)\<rparr>
      else Inl ValueError)"

definition log :: "event \<Rightarrow> world \<Rightarrow> world" where
  "log ev w = w\<lparr>events := events w @ [ev]\<rparr>"

definition read_text :: "env \<Rightarrow> path \<Rightarrow> world \<Rightarrow> (error + string) \<times> world" where
  "read_text e p w =
     (case files w (resolve e p) of
        None \<Rightarrow> (Inl (FileNotFoundError (resolve e p)), log (ReadText (resolve e p)) w)
      | Some text \<Rightarrow> (Inr text, log (ReadText (resolve e p)) w))"

definition write_text :: "env \<Rightarrow> path \<Rightarrow> string \<Rightarrow> world \<Rightarrow> world" where
  "write_text e p content w =
     log (WriteText (resolve e p) content) (w\<lparr>files := (files w)(resolve e p \<mapsto> content)\<rparr>)"

definition print :: "string \<Rightarrow> world \<Rightarrow> world" where
  "print s w = log (Print s) w"

text \<open>\<^verbatim>\<open>input(prompt)\<close>: the next line of the standard input, without its line end.\<close>

definition input :: "string \<Rightarrow> world \<Rightarrow> (error + string) \<times> world" where
  "input prompt w =
     (case stdin w of
        [] \<Rightarrow> (Inl EOFError, log (Input prompt) w)
      | l # ls \<Rightarrow> (Inr l, log (Input prompt) (w\<lparr>stdin := ls\<rparr>)))"

section \<open>The script\<close>

record VersionLocation =
  path :: path
  template :: string

record PackageVersionInfo =
  name :: string
  current_version :: string
  locations :: "VersionLocation list"

text \<open>
  \<^verbatim>\<open>
  def replace_version(path: Path, template: str, old: str, new: str, dry: bool):
      old_content = path.read_text(encoding="utf-8")
      new_content = old_content.replace(
          template.format(version=old), template.format(version=new)
      )
      if dry:
          diff = context_diff(
              old_content.splitlines(),
              new_content.splitlines(),
              fromfile="current",
              tofile="new (proposed update)",
              n=4,
          )
          relative_path = path.relative_to(ROOT) if path.is_absolute() else path
          print("\n## Summary of changes proposed to {path}".format(path=relative_path))
          print("\n".join(diff) + "\n")
      else:
          path.write_text(new_content)
  \<close>
\<close>

definition new_content_of :: "string \<Rightarrow> string \<Rightarrow> string \<Rightarrow> string \<Rightarrow> error + string" where
  "new_content_of old_content tmpl old new =
     (case format_str ''version'' old tmpl of
        Inl e \<Rightarrow> Inl e
      | Inr old_text \<Rightarrow>
          (case format_str ''version'' new tmpl of
             Inl e \<Rightarrow> Inl e
           | Inr new_text \<Rightarrow> Inr (str_replace old_content old_text new_text)))"

definition replace_version ::
    "env \<Rightarrow> path \<Rightarrow> string \<Rightarrow> string \<Rightarrow> string \<Rightarrow> bool \<Rightarrow> world \<Rightarrow> outcome \<times> world" where
  "replace_version e p tmpl old new dry w =
     (case read_text e p w of
        (Inl err, w1) \<Rightarrow> (Raised err, w1)
      | (Inr old_content, w1) \<Rightarrow>
          (case new_content_of old_content tmpl old new of
             Inl err \<Rightarrow> (Raised err, w1)
           | Inr new_content \<Rightarrow>
               if dry then
                 (let diff = context_diff (splitlines old_content) (splitlines new_content)
                               ''current'' ''new (proposed update)'' 4
                  in case (if absolute p then relative_to e p else Inr p) of
                       Inl err \<Rightarrow> (Raised err, w1)
                     | Inr relative_path \<Rightarrow>
                         (Returned,
                          print (join [CHR 0x0A] diff @ [CHR 0x0A])
                            (print ([CHR 0x0A] @ ''## Summary of changes proposed to ''
                                      @ path_str relative_path) w1)))
               else (Returned, write_text e p new_content w1)))"

text \<open>
  \<^verbatim>\<open>
  def change_version(self, new_version: str, dry: bool):
      changelog = CHANGELOG.read_text(encoding="utf-8")
      if new_version not in changelog:
          raise Exception(
              (
                  f"{new_version} is absent in CHANGELOG.md file."
                  f" Please update the changelog first."
              ).format(new_version=new_version)
          )
      for location in self.locations:
          replace_version(path=location.path, template=location.template,
                          old=self.current_version, new=new_version, dry=dry)
  \<close>
  The message of the exception is an f-string that is formatted a second time by
  \<^verbatim>\<open>.format\<close>; the second formatting can raise.
\<close>

fun replace_locations ::
    "env \<Rightarrow> VersionLocation list \<Rightarrow> string \<Rightarrow> string \<Rightarrow> bool \<Rightarrow> world \<Rightarrow> outcome \<times> world" where
  "replace_locations e [] old new dry w = (Returned, w)"
| "replace_locations e (location # rest) old new dry w =
     (case replace_version e (path location) (template location) old new dry w of
        (Raised err, w1) \<Rightarrow> (Raised err, w1)
      | (Returned, w1) \<Rightarrow> replace_locations e rest old new dry w1)"

definition absent_message :: "string \<Rightarrow> error" where
  "absent_message new_version =
     (case format_str ''new_version'' new_version
             (new_version @ '' is absent in CHANGELOG.md file.''
                @ '' Please update the changelog first.'') of
        Inl err \<Rightarrow> err
      | Inr msg \<Rightarrow> Exception msg)"

definition change_version ::
    "env \<Rightarrow> PackageVersionInfo \<Rightarrow> string \<Rightarrow> bool \<Rightarrow> world \<Rightarrow> outcome \<times> world" where
  "change_version e self new_version dry w =
     (case read_text e (CHANGELOG e) w of
        (Inl err, w1) \<Rightarrow> (Raised err, w1)
      | (Inr changelog, w1) \<Rightarrow>
          if \<not> sublist new_version changelog then (Raised (absent_message new_version), w1)
          else replace_locations e (locations self) (current_version self) new_version dry w1)"

text \<open>
  \<^verbatim>\<open>
  def maybe_change_version(self, dry: bool):
      print(f"Current {self.name} version is: {self.current_version}")
      version = input("Change it to [default=skip]: ").strip()
      if version:
          self.change_version(new_version=version, dry=dry)
  \<close>
\<close>

definition maybe_change_version ::
    "env \<Rightarrow> PackageVersionInfo \<Rightarrow> bool \<Rightarrow> world \<Rightarrow> outcome \<times> world" where
  "maybe_change_version e self dry w =
     (case input ''Change it to [default=skip]: ''
             (print (''Current '' @ name self @ '' version is: '' @ current_version self) w) of
        (Inl err, w1) \<Rightarrow> (Raised err, w1)
      | (Inr line, w1) \<Rightarrow>
          if strip line \<noteq> [] then change_version e self (strip line) dry w1
          else (Returned, w1))"

text \<open>The registry \<^verbatim>\<open>PACKAGES\<close>, a dictionary in the order of its entries.\<close>

definition META_PACKAGE :: path where
  "META_PACKAGE = Path [''packages'', ''metapackage'', ''package.json'']"

definition JUPYTERLAB_LSP_PACKAGE :: path where
  "JUPYTERLAB_LSP_PACKAGE = Path [''packages'', ''jupyterlab-lsp'', ''package.json'']"

definition README :: path where
  "README = Path [''README.md'']"

definition NPM_PACKAGE_VERSION_TEMPLATE :: string where
  \<open>NPM_PACKAGE_VERSION_TEMPLATE = ''"version": "{version}"''\<close>

definition PACKAGES :: "env \<Rightarrow> (string \<times> PackageVersionInfo) list" where
  \<open>PACKAGES e =
     [(''jupyter-lsp'',
       \<lparr>name = ''jupyter-lsp (Python backend)'',
        current_version = JUPYTER_LSP_VERSION e,
        locations =
          [\<lparr>path = Path [''python_packages'', ''jupyter_lsp'', ''jupyter_lsp'', ''_version.py''],
            template = ''__version__ = "{version}"''\<rparr>,
           \<lparr>path = PIPELINE e, template = ''PY_JLSP_VERSION: {version}''\<rparr>]\<rparr>),
      (''jupyterlab-lsp'',
       \<lparr>name = ''jupyterlab-lsp (frontend package)'',
        current_version = JUPYTERLAB_LSP_VERSION e,
        locations =
          [\<lparr>path = JUPYTERLAB_LSP_PACKAGE, template = NPM_PACKAGE_VERSION_TEMPLATE\<rparr>,
           \<lparr>path = PIPELINE e, template = ''JS_JLLSP_VERSION: {version}''\<rparr>,
           \<lparr>path = META_PACKAGE, template = NPM_PACKAGE_VERSION_TEMPLATE\<rparr>]\<rparr>),
      (''jupyterlab:exact'',
       \<lparr>name = ''JupyterLab - exact'',
        current_version = JUPYTERLAB_VERSION e,
        locations =
          [\<lparr>path = JUPYTERLAB_LSP_PACKAGE,
            template = ''"@jupyterlab/application": "~{version}"''\<rparr>]\<rparr>),
      (''jupyterlab:range'',
       \<lparr>name = ''JupyterLab - range'',
        current_version = REQUIRED_JUPYTERLAB e,
        locations =
          [\<lparr>path = Path [''binder'', ''environment.yml''], template = ''jupyterlab {version}''\<rparr>,
           \<lparr>path = README, template = ''jupyterlab {version}''\<rparr>,
           \<lparr>path = README, template = ''JupyterLab {version}''\<rparr>]\<rparr>)]\<close>

text \<open>
  \<^verbatim>\<open>
  def update_versions(dry: bool):
      for package in PACKAGES.values():
          package.maybe_change_version(dry=dry)
  \<close>
\<close>

fun visit_packages ::
    "env \<Rightarrow> PackageVersionInfo list \<Rightarrow> bool \<Rightarrow> world \<Rightarrow> outcome \<times> world" where
  "visit_packages e [] dry w = (Returned, w)"
| "visit_packages e (package # rest) dry w =
     (case maybe_change_version e package dry w of
        (Raised err, w1) \<Rightarrow> (Raised err, w1)
      | (Returned, w1) \<Rightarrow> visit_packages e rest dry w1)"

definition update_versions :: "env \<Rightarrow> bool \<Rightarrow> world \<Rightarrow> outcome \<times> world" where
  "update_versions e dry w = visit_packages e (map snd (PACKAGES e)) dry w"

text \<open>
  The body of \<^verbatim>\<open>__main__\<close> after the arguments are parsed; \<open>args_package\<close> and
  \<open>args_version\<close> are \<open>None\<close> when the option is not given.
  \<^verbatim>\<open>
  if args.package:
      assert args.version
  if args.version:
      assert args.package
  if args.package:
      package = PACKAGES[args.package]
      package.change_version(args.version, dry=args.dry)
  else:
      update_versions(dry=args.dry)
  \<close>
\<close>

definition truthy :: "string option \<Rightarrow> bool" where
  "truthy x = (case x of None \<Rightarrow> False | Some s \<Rightarrow> s \<noteq> [])"

definition main ::
    "env \<Rightarrow> bool \<Rightarrow> string option \<Rightarrow> string option \<Rightarrow> world \<Rightarrow> outcome \<times> world" where
  "main e args_dry args_package args_version w =
     (if truthy args_package \<and> \<not> truthy args_version then (Raised AssertionError, w)
      else if truthy args_version \<and> \<not> truthy args_package then (Raised AssertionError, w)
      else if truthy args_package then
        (case map_of (PACKAGES e) (the args_package) of
           None \<Rightarrow> (Raised (KeyError (the args_package)), w)
         | Some package \<Rightarrow> change_version e package (the args_version) args_dry w)
      else update_versions e args_dry w)"

section \<open>Notions of the specification\<close>

text \<open>
  The text \<open>s\<close> cut at the occurrences of \<open>old\<close> that a scan from the left meets: no
  occurrence of \<open>old\<close> starts inside a segment, and the last segment holds none.
\<close>

definition segmented :: "string \<Rightarrow> string list \<Rightarrow> bool" where
  "segmented old segs =
     (segs \<noteq> [] \<and> list_all (\<lambda>x. \<not> sublist old (x @ butlast old)) (butlast segs)
      \<and> \<not> sublist old (last segs))"

text \<open>The events that are writes of a file.\<close>

definition is_write :: "event \<Rightarrow> bool" where
  "is_write ev = (case ev of WriteText _ _ \<Rightarrow> True | _ \<Rightarrow> False)"

text \<open>
  A world \<open>w'\<close> reached from \<open>w\<close> without a write: the files have the same content and no
  \<^verbatim>\<open>write_text\<close> was logged.
\<close>

definition untouched :: "world \<Rightarrow> world \<Rightarrow> bool" where
  "untouched w w' =
     (files w' = files w \<and> filter is_write (events w') = filter is_write (events w))"

text \<open>
  A path the dry run can show: it is relative, or it lies under the working directory, so
  that \<^verbatim>\<open>path.relative_to(ROOT)\<close> does not raise. The literal paths of the registry are
  relative.
\<close>

definition displayable :: "env \<Rightarrow> path \<Rightarrow> bool" where
  "displayable e p = (\<not> absolute p \<or> prefix (ROOT e) (parts p))"

text \<open>
  The world after a package has been announced and the prompt shown: the heading is
  printed and the prompt is logged.
\<close>

definition prompted :: "PackageVersionInfo \<Rightarrow> world \<Rightarrow> world" where
  "prompted self w =
     log (Input ''Change it to [default=skip]: '')
       (print (''Current '' @ name self @ '' version is: '' @ current_version self) w)"

text \<open>
  The number of positions of \<open>s\<close> at which \<open>old\<close> occurs. The old rendered string is
  unique in a file when this number is 1.
\<close>

fun count_occ :: "string \<Rightarrow> string \<Rightarrow> nat" where
  "count_occ old [] = (if old = [] then 1 else 0)"
| "count_occ old (c # cs) = (if prefix old (c # cs) then 1 else 0) + count_occ old cs"

text \<open>
  The two formats of a diff, as predicates on its lines. A unified diff opens with a line
  \<^verbatim>\<open>--- \<close> for the old file and a line \<^verbatim>\<open>+++ \<close> for the new one; each hunk opens with a
  line \<^verbatim>\<open>@@ ... @@\<close> and marks its lines by one character, a blank, \<^verbatim>\<open>-\<close> or \<^verbatim>\<open>+\<close>. A
  context diff opens with a line \<^verbatim>\<open>*** \<close> for the old file and a line \<^verbatim>\<open>--- \<close> for the new
  one; each hunk opens with a line of fifteen stars, gives the old lines under
  \<^verbatim>\<open>*** range ****\<close> and the new lines under \<^verbatim>\<open>--- range ----\<close>, and marks its lines by
  two characters, \<^verbatim>\<open>! \<close>, \<^verbatim>\<open>- \<close>, \<^verbatim>\<open>+ \<close> or two blanks.
\<close>

definition unified_line :: "string \<Rightarrow> bool" where
  "unified_line l = (prefix ''@@ '' l \<or> prefix '' '' l \<or> prefix ''-'' l \<or> prefix ''+'' l)"

definition unified_style :: "string list \<Rightarrow> bool" where
  "unified_style diff =
     (case diff of
        [] \<Rightarrow> True
      | [l0] \<Rightarrow> False
      | l0 # l1 # hunks \<Rightarrow>
          prefix ''--- '' l0 \<and> prefix ''+++ '' l1 \<and> hunks \<noteq> []
          \<and> prefix ''@@ '' (hd hunks) \<and> list_all unified_line hunks)"

definition context_line :: "string \<Rightarrow> bool" where
  "context_line l =
     (l = ''***************'' @ lineterm \<or> prefix ''*** '' l \<or> prefix ''--- '' l
      \<or> prefix ''! '' l \<or> prefix ''- '' l \<or> prefix ''+ '' l \<or> prefix ''  '' l)"

definition context_style :: "string \<Rightarrow> string \<Rightarrow> string list \<Rightarrow> bool" where
  "context_style fromfile tofile diff =
     (case diff of
        [] \<Rightarrow> True
      | [l0] \<Rightarrow> False
      | l0 # l1 # hunks \<Rightarrow>
          l0 = ''*** '' @ fromfile @ lineterm \<and> l1 = ''--- '' @ tofile @ lineterm \<and> hunks \<noteq> []
          \<and> hd hunks = ''***************'' @ lineterm \<and> list_all context_line hunks)"

text \<open>Sample files for the closed instances of the theorems.\<close>

definition demo_env :: env where
  "demo_env =
     \<lparr>ROOT = [''repo''],
      CHANGELOG = \<lparr>absolute = True, parts = [''repo'', ''CHANGELOG.md'']\<rparr>,
      PIPELINE = \<lparr>absolute = True, parts = [''repo'', ''ci.yml'']\<rparr>,
      JUPYTER_LSP_VERSION = ''2.0.0'',
      JUPYTERLAB_LSP_VERSION = ''3.0.0'',
      JUPYTERLAB_VERSION = ''3.1'',
      REQUIRED_JUPYTERLAB = ''>=3''\<rparr>"

definition demo_files :: "string list \<rightharpoonup> string" where
  \<open>demo_files =
     [[''repo'', ''CHANGELOG.md''] \<mapsto> ''2.0.1, 2.0.0.1, 2.0.0'',
      [''repo'', ''ci.yml'']
         \<mapsto> ''PY_JLSP_VERSION: 2.0.0'' @ [CHR 0x0A] @ ''JS_JLLSP_VERSION: 3.0.0'',
      [''repo'', ''python_packages'', ''jupyter_lsp'', ''jupyter_lsp'', ''_version.py'']
         \<mapsto> ''__version__ = "2.0.0"'',
      [''repo'', ''notes.txt''] \<mapsto> ''v1 and v1!'']\<close>

definition demo_world :: world where
  "demo_world = \<lparr>files = demo_files, stdin = [], events = []\<rparr>"

definition demo_package :: PackageVersionInfo where
  "demo_package = snd (hd (PACKAGES demo_env))"





definition demo_session :: world where
  "demo_session = demo_world\<lparr>stdin := [''  '', ''9.9.9'', ''2.0.1'', ''2.0.1'']\<rparr>"

definition demo_diff :: "string list" where
  "demo_diff =
     [''*** current'' @ [CHR 0x0A],
      ''--- new (proposed update)'' @ [CHR 0x0A],
      ''***************'' @ [CHR 0x0A],
      ''*** 1,2 ****'' @ [CHR 0x0A],
      ''! PY_JLSP_VERSION: 2.0.0'',
      ''  JS_JLLSP_VERSION: 3.0.0'',
      ''--- 1,2 ----'' @ [CHR 0x0A],
      ''! PY_JLSP_VERSION: 2.0.1'',
      ''  JS_JLLSP_VERSION: 3.0.0'']"

definition demo_shared :: PackageVersionInfo where
  "demo_shared =
     \<lparr>name = ''notes'', current_version = ''1'',
      locations = [\<lparr>path = Path [''notes.txt''], template = ''{version}x''\<rparr>,
                   \<lparr>path = Path [''notes.txt''], template = ''1x{version}''\<rparr>]\<rparr>"

section \<open>Matches stay inside their window\<close>

text \<open>
  The match that \<^verbatim>\<open>find_longest_match\<close> returns also lies inside the window of \<open>b\<close>. Inside
  the proofs, a run that ends at \<open>(i, j)\<close> has at most \<open>i - alo + 1\<close> and at most
  \<open>j - blo + 1\<close> elements, so that the differences \<open>i + 1 - k\<close> and \<open>j + 1 - k\<close> of
  \<open>scan_row\<close> are those of Python's integers.
\<close>

lemma scan_row_columns:
  assumes "\<forall>j. j2len j \<le> Suc j - blo" "\<forall>j. newj2len j \<le> Suc j - blo"
    and "blo \<le> fst (snd best)" "fst (snd best) + snd (snd best) \<le> max blo bhi"
    and "scan_row i blo bhi j2len js (best, newj2len) = (best', newj2len')"
  shows "(\<forall>j. newj2len' j \<le> Suc j - blo) \<and> blo \<le> fst (snd best')
         \<and> fst (snd best') + snd (snd best') \<le> max blo bhi"
  using assms
proof (induction js arbitrary: best newj2len)
  case Nil
  then show ?case by simp
next
  case (Cons j js)
  show ?case
  proof (cases "j < blo")
    case True
    with Cons.prems have "scan_row i blo bhi j2len js (best, newj2len) = (best', newj2len')"
      by simp
    from Cons.IH [OF Cons.prems(1-4) this] show ?thesis .
  next
    case nlo: False
    show ?thesis
    proof (cases "j \<ge> bhi")
      case True
      with nlo Cons.prems show ?thesis by simp
    next
      case False
      define k where "k = (if j = 0 then 0 else j2len (j - 1)) + 1"
      define best2 where "best2 = (if k > snd (snd best) then (i + 1 - k, j + 1 - k, k) else best)"
      have "j2len (j - 1) \<le> Suc (j - 1) - blo"
        using Cons.prems(1) by blast
      then have k: "k \<le> Suc j - blo" "0 < k"
        using nlo by (auto simp: k_def)
      have "scan_row i blo bhi j2len (j # js) (best, newj2len)
              = scan_row i blo bhi j2len js (best2, newj2len(j := k))"
        unfolding k_def best2_def using nlo False by (simp add: Let_def)
      with Cons.prems(5)
      have run: "scan_row i blo bhi j2len js (best2, newj2len(j := k)) = (best', newj2len')"
        by simp
      have a: "\<forall>ja. (newj2len(j := k)) ja \<le> Suc ja - blo"
        using Cons.prems(2) k by simp
      have b: "blo \<le> fst (snd best2)"
        using Cons.prems(3) k nlo by (auto simp: best2_def)
      have c: "fst (snd best2) + snd (snd best2) \<le> max blo bhi"
        using Cons.prems(4) k nlo False by (auto simp: best2_def)
      from Cons.IH [OF Cons.prems(1) a b c run] show ?thesis .
    qed
  qed
qed

lemma rows_columns:
  "fold (\<lambda>i (best, j2len). scan_row i blo bhi j2len (f i) (best, \<lambda>_. 0))
        is ((alo, blo, 0), \<lambda>_. 0) = (best, j2len)
   \<Longrightarrow> (\<forall>j. j2len j \<le> Suc j - blo) \<and> blo \<le> fst (snd best)
       \<and> fst (snd best) + snd (snd best) \<le> max blo bhi"
proof (induction "is" arbitrary: best j2len rule: rev_induct)
  case Nil
  then show ?case by auto
next
  case (snoc i "is")
  obtain best0 j2len0 where prev:
    "fold (\<lambda>i (best, j2len). scan_row i blo bhi j2len (f i) (best, \<lambda>_. 0))
        is ((alo, blo, 0), \<lambda>_. 0) = (best0, j2len0)"
    by (cases "fold (\<lambda>i (best, j2len). scan_row i blo bhi j2len (f i) (best, \<lambda>_. 0))
        is ((alo, blo, 0), \<lambda>_. 0)") blast
  from snoc.IH [OF prev] have ih: "\<forall>j. j2len0 j \<le> Suc j - blo" "blo \<le> fst (snd best0)"
    "fst (snd best0) + snd (snd best0) \<le> max blo bhi"
    by auto
  from snoc.prems prev
  have step: "scan_row i blo bhi j2len0 (f i) (best0, \<lambda>_. 0) = (best, j2len)"
    by simp
  show ?case
    by (rule scan_row_columns [OF ih(1) _ ih(2,3) step]) simp
qed

lemma extend_back_columns:
  "extend_back a b alo blo m = m' \<Longrightarrow> blo \<le> fst (snd m)
   \<Longrightarrow> blo \<le> fst (snd m') \<and> fst (snd m') + snd (snd m') = fst (snd m) + snd (snd m)"
proof (induction a b alo blo m rule: extend_back.induct)
  case (1 a b alo blo besti bestj bestsize)
  show ?case
  proof (cases "besti > alo \<and> bestj > blo \<and> a ! (besti - 1) = b ! (bestj - 1)")
    case True
    with "1.prems" have run: "extend_back a b alo blo (besti - 1, bestj - 1, bestsize + 1) = m'"
      by simp
    have "blo \<le> fst (snd (besti - 1, bestj - 1, bestsize + 1))"
      using True by auto
    from "1.IH" [OF True run this] True show ?thesis by auto
  next
    case False
    with "1.prems" show ?thesis by auto
  qed
qed

lemma extend_forward_columns:
  "extend_forward a b ahi bhi m = m' \<Longrightarrow> fst (snd m) + snd (snd m) \<le> max lo bhi
   \<Longrightarrow> fst (snd m') = fst (snd m) \<and> fst (snd m') + snd (snd m') \<le> max lo bhi"
proof (induction a b ahi bhi m rule: extend_forward.induct)
  case (1 a b ahi bhi besti bestj bestsize)
  show ?case
  proof (cases "besti + bestsize < ahi \<and> bestj + bestsize < bhi
         \<and> a ! (besti + bestsize) = b ! (bestj + bestsize)")
    case True
    with "1.prems" have run: "extend_forward a b ahi bhi (besti, bestj, bestsize + 1) = m'"
      by simp
    have "fst (snd (besti, bestj, bestsize + 1)) + snd (snd (besti, bestj, bestsize + 1))
            \<le> max lo bhi"
      using True by auto
    from "1.IH" [OF True run this] show ?thesis by simp
  next
    case False
    with "1.prems" show ?thesis by auto
  qed
qed

lemma find_longest_match_columns:
  assumes "find_longest_match a b alo ahi blo bhi = (i, j, k)"
  shows "blo \<le> j \<and> j + k \<le> max blo bhi"
proof -
  define rows where "rows = fold (\<lambda>i (best, j2len).
      scan_row i blo bhi j2len (chain_b b (a ! i)) (best, \<lambda>_. 0))
      [alo..<ahi] ((alo, blo, 0), \<lambda>_. 0)"
  have "rows = (fst rows, snd rows)" by simp
  from rows_columns [OF this [unfolded rows_def]]
  have r: "blo \<le> fst (snd (fst rows))"
    "fst (snd (fst rows)) + snd (snd (fst rows)) \<le> max blo bhi"
    by (simp_all add: rows_def)
  obtain m1 where m1: "extend_back a b alo blo (fst rows) = m1" by blast
  from extend_back_columns [OF m1] r
  have b1: "blo \<le> fst (snd m1)" "fst (snd m1) + snd (snd m1) \<le> max blo bhi"
    by auto
  have "extend_forward a b ahi bhi m1 = (i, j, k)"
    using assms m1 by (simp add: find_longest_match_def rows_def Let_def)
  from extend_forward_columns [OF this b1(2)] b1(1) show ?thesis by simp
qed

section \<open>Replacement of text\<close>


lemma prefix_butlast_extend:
  assumes "old \<noteq> []" "prefix old (pre @ old @ rest)" "pre \<noteq> []"
  shows "sublist old (pre @ butlast old)"
proof -
  have len: "length old \<le> length (pre @ butlast old)"
    using assms(3) by (cases pre) auto
  have "old = take (length old) (pre @ old @ rest)"
    using assms(2) by (metis append_eq_conv_conj prefix_def)
  also have "pre @ old @ rest = (pre @ butlast old) @ (last old # rest)"
    using assms(1) by (metis append.assoc append_Cons append_Nil append_butlast_last_id)
  also have "take (length old) \<dots> = take (length old) (pre @ butlast old)"
    using len by simp
  finally have "prefix old (pre @ butlast old)"
    by (metis take_is_prefix)
  then show ?thesis by (rule prefix_imp_sublist)
qed

lemma replace_nonempty_first:
  assumes "old \<noteq> []" "\<not> sublist old (pre @ butlast old)"
  shows "replace_nonempty (pre @ old @ rest) old new = pre @ new @ replace_nonempty rest old new"
  using assms(2)
proof (induction pre)
  case Nil
  obtain c cs where old: "old = c # cs" using assms(1) by (cases old) auto
  have "replace_nonempty ((c # cs) @ rest) (c # cs) new
          = new @ replace_nonempty (drop (length (c # cs)) ((c # cs) @ rest)) (c # cs) new"
    by (simp del: drop_append)
  then show ?case by (simp add: old)
next
  case (Cons c pre)
  have np: "\<not> prefix old ((c # pre) @ old @ rest)"
    using prefix_butlast_extend [OF assms(1), of "c # pre" rest] Cons.prems by blast
  have "\<not> sublist old (pre @ butlast old)"
    using Cons.prems by (auto simp: sublist_Cons_right)
  from Cons.IH [OF this] np show ?case by simp
qed

lemma join_Cons: "join sep (x # xs) = (if xs = [] then x else x @ sep @ join sep xs)"
  by (cases xs) auto

lemma replace_nonempty_segments:
  assumes "old \<noteq> []"
  shows "\<exists>segs. segmented old segs \<and> s = join old segs
           \<and> (\<forall>new. replace_nonempty s old new = join new segs)"
proof (induction "length s" arbitrary: s rule: less_induct)
  case less
  show ?case
  proof (cases s)
    case Nil
    have "segmented old [[]]" using assms by (simp add: segmented_def)
    then show ?thesis using Nil by (intro exI [of _ "[[]]"]) simp
  next
    case (Cons c cs)
    show ?thesis
    proof (cases "prefix old s")
      case True
      then obtain rest where s: "s = old @ rest" by (auto simp: prefix_def)
      have "length rest < length s" using assms s by simp
      from less [OF this] obtain segs where segs: "segmented old segs" "rest = join old segs"
        "\<forall>new. replace_nonempty rest old new = join new segs" by blast
      have "\<not> length old \<le> length (butlast old)"
        using assms by (cases old) auto
      then have nb: "\<not> sublist old ([] @ butlast old)"
        using sublist_length_le [of old "butlast old"] by auto
      have 1: "segmented old ([] # segs)"
        using segs(1) nb by (simp add: segmented_def)
      have 2: "s = join old ([] # segs)"
        using segs(1,2) s by (simp add: join_Cons segmented_def)
      have 3: "replace_nonempty s old new = join new ([] # segs)" for new
        using replace_nonempty_first [OF assms nb, of rest new] segs(1,3) s
        by (simp add: join_Cons segmented_def)
      from 1 2 3 show ?thesis by blast
    next
      case False
      have "length cs < length s" using Cons by simp
      from less [OF this] obtain segs where segs: "segmented old segs" "cs = join old segs"
        "\<forall>new. replace_nonempty cs old new = join new segs" by blast
      then obtain x xs where sx: "segs = x # xs" by (cases segs) (auto simp: segmented_def)
      have np: "\<not> prefix old (c # cs)" using False Cons by simp
      have 1: "segmented old ((c # x) # xs)"
      proof (cases xs)
        case Nil
        have "\<not> prefix old (c # x)" using np segs(2) sx Nil by simp
        then show ?thesis using segs(1) sx Nil by (simp add: segmented_def sublist_Cons_right)
      next
        case (Cons y ys)
        have "c # cs = (c # x @ butlast old) @ (last old # join old xs)"
          using segs(2) sx Cons assms
          by (metis (no_types, lifting) append.assoc append_Cons append_Nil
              append_butlast_last_id join_Cons list.distinct(1))
        then have "\<not> prefix old (c # x @ butlast old)"
          using np by (metis prefix_order.trans prefixI)
        then show ?thesis using segs(1) sx Cons by (simp add: segmented_def sublist_Cons_right)
      qed
      have 2: "s = join old ((c # x) # xs)"
        using segs(2) sx \<open>s = c # cs\<close> by (simp add: join_Cons)
      have 3: "replace_nonempty s old new = join new ((c # x) # xs)" for new
        using segs(3) sx \<open>s = c # cs\<close> np by (simp add: join_Cons)
      from 1 2 3 show ?thesis by blast
    qed
  qed
qed

lemma files_log [simp]: "files (log ev w) = files w"
  by (simp add: log_def)

lemma stdin_log [simp]: "stdin (log ev w) = stdin w"
  by (simp add: log_def)

lemma files_write_text [simp]:
  "files (write_text e p content w) = (files w)(resolve e p \<mapsto> content)"
  by (simp add: write_text_def)

lemma read_text_Some:
  "files w (resolve e p) = Some text
   \<Longrightarrow> read_text e p w = (Inr text, log (ReadText (resolve e p)) w)"
  by (simp add: read_text_def)

lemma read_text_None:
  "files w (resolve e p) = None
   \<Longrightarrow> read_text e p w = (Inl (FileNotFoundError (resolve e p)), log (ReadText (resolve e p)) w)"
  by (simp add: read_text_def)

lemma new_content_of_Inr:
  "format_str ''version'' old tmpl = Inr old_text
   \<Longrightarrow> format_str ''version'' new tmpl = Inr new_text
   \<Longrightarrow> new_content_of text tmpl old new = Inr (str_replace text old_text new_text)"
  by (simp add: new_content_of_def)

lemma replace_version_write:
  "files w (resolve e p) = Some text \<Longrightarrow> new_content_of text tmpl old new = Inr content
   \<Longrightarrow> replace_version e p tmpl old new False w
       = (Returned, write_text e p content (log (ReadText (resolve e p)) w))"
  by (simp add: replace_version_def read_text_Some)

section \<open>Effects on the files\<close>

lemma untouched_refl [simp]: "untouched w w"
  by (simp add: untouched_def)

lemma untouched_trans: "untouched w w1 \<Longrightarrow> untouched w1 w2 \<Longrightarrow> untouched w w2"
  by (simp add: untouched_def)

lemma untouched_log: "\<not> is_write ev \<Longrightarrow> untouched w (log ev w)"
  by (simp add: untouched_def log_def)

lemma untouched_read_text: "untouched w (snd (read_text e p w))"
  by (auto simp: read_text_def untouched_def log_def is_write_def split: option.splits)

lemma untouched_print: "untouched w (print s w)"
  by (simp add: print_def untouched_def log_def is_write_def)

lemma untouched_print_iff [simp]: "untouched w (print s w1) = untouched w w1"
  by (simp add: print_def untouched_def log_def is_write_def)

lemma untouched_input: "untouched w (snd (input prompt w))"
  by (auto simp: input_def untouched_def log_def is_write_def split: list.splits)

lemma replace_version_dry_untouched:
  "untouched w (snd (replace_version e p tmpl old new True w))"
proof -
  have r: "untouched w (snd (read_text e p w))" by (rule untouched_read_text)
  show ?thesis
    using r
    by (auto simp: replace_version_def Let_def split: prod.splits sum.splits)
qed

lemma replace_locations_dry_untouched:
  "untouched w (snd (replace_locations e locs old new True w))"
proof (induction locs arbitrary: w)
  case Nil
  show ?case by simp
next
  case (Cons location rest)
  have step: "untouched w (snd (replace_version e (path location) (template location) old new True w))"
    by (rule replace_version_dry_untouched)
  show ?case
  proof (cases "replace_version e (path location) (template location) old new True w")
    case (Pair r w1)
    with step have u: "untouched w w1" by simp
    show ?thesis
    proof (cases r)
      case Returned
      with Pair u Cons.IH [of w1] show ?thesis
        by (auto intro: untouched_trans)
    next
      case (Raised err)
      with Pair u show ?thesis by simp
    qed
  qed
qed

lemma change_version_dry_untouched:
  "untouched w (snd (change_version e self v True w))"
proof (cases "read_text e (CHANGELOG e) w")
  case (Pair r w1)
  with untouched_read_text [of w e "CHANGELOG e"] have u: "untouched w w1" by simp
  show ?thesis
  proof (cases r)
    case (Inl err)
    with Pair u show ?thesis by (simp add: change_version_def)
  next
    case (Inr changelog)
    with Pair u replace_locations_dry_untouched [of w1 e "locations self" "current_version self" v]
    show ?thesis
      by (auto simp: change_version_def intro: untouched_trans)
  qed
qed

lemma maybe_change_version_dry_untouched:
  "untouched w (snd (maybe_change_version e self True w))"
proof -
  define w0 where "w0 = print (''Current '' @ name self @ '' version is: '' @ current_version self) w"
  have u0: "untouched w w0" by (simp add: w0_def untouched_print)
  show ?thesis
  proof (cases "input ''Change it to [default=skip]: '' w0")
    case (Pair r w1)
    with untouched_input [of w0 "''Change it to [default=skip]: ''"] u0
    have u: "untouched w w1" by (auto intro: untouched_trans)
    show ?thesis
    proof (cases r)
      case (Inl err)
      with Pair u show ?thesis by (simp add: maybe_change_version_def w0_def)
    next
      case (Inr line)
      with Pair u change_version_dry_untouched [of w1 e self "strip line"]
      show ?thesis
        by (auto simp: maybe_change_version_def w0_def intro: untouched_trans)
    qed
  qed
qed

lemma visit_packages_dry_untouched:
  "untouched w (snd (visit_packages e ps True w))"
proof (induction ps arbitrary: w)
  case Nil
  show ?case by simp
next
  case (Cons package rest)
  show ?case
  proof (cases "maybe_change_version e package True w")
    case (Pair r w1)
    with maybe_change_version_dry_untouched [of w e package] have u: "untouched w w1" by simp
    show ?thesis
    proof (cases r)
      case Returned
      with Pair u Cons.IH [of w1] show ?thesis by (auto intro: untouched_trans)
    next
      case (Raised err)
      with Pair u show ?thesis by simp
    qed
  qed
qed

lemma main_dry_untouched:
  "untouched w (snd (main e True args_package args_version w))"
  by (auto simp: main_def update_versions_def visit_packages_dry_untouched
        change_version_dry_untouched split: option.splits)



lemma replace_version_print:
  assumes "files w (resolve e p) = Some txt"
    and "new_content_of txt tmpl old new = Inr content"
    and "displayable e p"
  shows "replace_version e p tmpl old new True w =
     (Returned,
      print (join [CHR 0x0A] (context_diff (splitlines txt) (splitlines content)
               ''current'' ''new (proposed update)'' 4) @ [CHR 0x0A])
        (print ([CHR 0x0A] @ ''## Summary of changes proposed to ''
                  @ path_str (if absolute p
                      then \<lparr>absolute = False, parts = drop (length (ROOT e)) (parts p)\<rparr> else p))
           (log (ReadText (resolve e p)) w)))"
  using assms
  by (auto simp: replace_version_def read_text_Some displayable_def relative_to_def Let_def)

lemma format_str_plain:
  "CHR ''{'' \<notin> set t \<Longrightarrow> CHR ''}'' \<notin> set t \<Longrightarrow> format_str kw v t = Inr t"
  by (induction t) auto

lemma change_version_guard:
  assumes "files w (resolve e (CHANGELOG e)) = Some changelog"
    and "\<not> sublist v changelog"
  shows "change_version e self v dry w
           = (Raised (absent_message v), log (ReadText (resolve e (CHANGELOG e))) w)"
  using assms by (simp add: change_version_def read_text_Some)

lemma absent_message_plain:
  "CHR ''{'' \<notin> set v \<Longrightarrow> CHR ''}'' \<notin> set v
   \<Longrightarrow> absent_message v = Exception (v @ '' is absent in CHANGELOG.md file.''
                                     @ '' Please update the changelog first.'')"
  by (simp add: absent_message_def format_str_plain)

lemma strip_Nil_iff: "strip s = [] \<longleftrightarrow> list_all isspace s"
proof
  assume "strip s = []"
  then have "dropWhile isspace (rev (dropWhile isspace s)) = []"
    by (simp add: strip_def)
  then have "\<forall>c \<in> set (dropWhile isspace s). isspace c"
    by (simp add: dropWhile_eq_Nil_conv)
  moreover have "dropWhile isspace s = [] \<or> \<not> isspace (hd (dropWhile isspace s))"
    using hd_dropWhile [of isspace s] by blast
  ultimately have "dropWhile isspace s = []"
    by (metis hd_in_set)
  then show "list_all isspace s"
    by (simp add: dropWhile_eq_Nil_conv list_all_iff)
next
  assume "list_all isspace s"
  then have "dropWhile isspace s = []"
    by (simp add: dropWhile_eq_Nil_conv list_all_iff)
  then show "strip s = []" by (auto simp: strip_def dest: set_dropWhileD)
qed

lemma strip_ends:
  assumes "strip s \<noteq> []"
  shows "\<not> isspace (hd (strip s)) \<and> \<not> isspace (last (strip s))"
proof -
  define ys where "ys = dropWhile isspace s"
  define zs where "zs = dropWhile isspace (rev ys)"
  have st: "strip s = rev zs" by (simp add: strip_def ys_def zs_def)
  with assms have zs: "zs \<noteq> []" by simp
  then have "\<not> isspace (hd zs)"
    unfolding zs_def using hd_dropWhile by blast
  then have l: "\<not> isspace (last (strip s))"
    using zs st by (simp add: last_rev)
  have "suffix zs (rev ys)"
    unfolding zs_def by (rule suffix_dropWhile)
  then obtain us where "rev ys = us @ zs" by (auto simp: suffix_def)
  then have "ys = rev zs @ rev us" by (metis rev_append rev_rev_ident)
  then have hd: "hd (strip s) = hd ys" and ne: "ys \<noteq> []"
    using zs st by auto
  have "\<not> isspace (hd ys)"
    using ne unfolding ys_def using hd_dropWhile by blast
  with hd l show ?thesis by simp
qed

lemma input_Cons:
  "stdin w = line # rest
   \<Longrightarrow> input prompt (print h w) = (Inr line, log (Input prompt) (print h w\<lparr>stdin := rest\<rparr>))"
  by (simp add: input_def print_def)

lemma input_Nil:
  "stdin w = [] \<Longrightarrow> input prompt (print h w) = (Inl EOFError, log (Input prompt) (print h w))"
  by (simp add: input_def print_def)

section \<open>The loops over the locations and over the packages\<close>

lemma visit_packages_append:
  "visit_packages e (xs @ ys) dry w =
     (case visit_packages e xs dry w of
        (Raised err, w1) \<Rightarrow> (Raised err, w1)
      | (Returned, w1) \<Rightarrow> visit_packages e ys dry w1)"
proof (induction xs arbitrary: w)
  case Nil
  show ?case by simp
next
  case (Cons x xs)
  show ?case
  proof (cases "maybe_change_version e x dry w")
    case (Pair r w1)
    then show ?thesis using Cons.IH [of w1] by (cases r) auto
  qed
qed

lemma maybe_change_version_eof:
  "stdin w = [] \<Longrightarrow> maybe_change_version e self dry w = (Raised EOFError, prompted self w)"
  by (simp add: maybe_change_version_def input_Nil prompted_def)

lemma log_stdin_update: "log ev (w\<lparr>stdin := rest\<rparr>) = (log ev w)\<lparr>stdin := rest\<rparr>"
  by (simp add: log_def)

lemma maybe_change_version_line:
  "stdin w = line # rest \<Longrightarrow>
   maybe_change_version e self dry w =
     (if strip line = [] then (Returned, prompted self w\<lparr>stdin := rest\<rparr>)
      else change_version e self (strip line) dry (prompted self w\<lparr>stdin := rest\<rparr>))"
  by (simp add: maybe_change_version_def input_Cons prompted_def log_stdin_update)
















section \<open>The format of the preview\<close>

lemma context_line_tag_prefix: "context_line (tag_prefix t @ l)"
  by (cases t) (simp_all add: tag_prefix_def context_line_def)

lemma context_group_lines:
  "context_group a b grp \<noteq> [] \<and> hd (context_group a b grp) = ''***************'' @ lineterm
   \<and> list_all context_line (context_group a b grp)"
  by (auto simp: context_group_def context_line_def [of "_ # _"] list_all_iff
        context_line_tag_prefix split: prod.splits)

lemma context_diff_style: "context_style fromfile tofile (context_diff a b fromfile tofile n)"
proof (cases "get_grouped_opcodes a b n")
  case Nil
  then show ?thesis by (simp add: context_diff_def context_style_def)
next
  case (Cons g gs)
  have "list_all context_line (concat (map (context_group a b) (g # gs)))"
    using context_group_lines [of a b] by (auto simp: list_all_iff)
  moreover have "concat (map (context_group a b) (g # gs)) \<noteq> []"
    using context_group_lines [of a b g] by simp
  moreover have "hd (concat (map (context_group a b) (g # gs))) = ''***************'' @ lineterm"
    using context_group_lines [of a b g] by simp
  ultimately show ?thesis
    using Cons by (simp add: context_diff_def context_style_def)
qed

section \<open>A change of version rewrites the unique occurrence\<close>




text \<open>
  Two locations in one file are outside the amended claim, because the second
  replacement works on the text the first one has produced. With the templates
  \<^verbatim>\<open>{version}x\<close> and \<^verbatim>\<open>1x{version}\<close>, the version 1 and the file text \<^verbatim>\<open>1x1\<close>, each old
  rendered string occurs once; the change to version 2 leaves \<^verbatim>\<open>2x1\<close>, which does not
  contain the second template rendered with 2.
\<close>

lemma shared_file_example:
  "count_occ ''1x'' ''1x1'' = 1 \<and> count_occ ''1x1'' ''1x1'' = 1
   \<and> format_str ''version'' ''2'' ''1x{version}'' = Inr ''1x2''
   \<and> fst (change_version demo_env demo_shared ''2'' False
             (demo_world\<lparr>files := (files demo_world)([''repo'', ''notes.txt''] \<mapsto> ''1x1'')\<rparr>))
       = Returned
   \<and> files (snd (change_version demo_env demo_shared ''2'' False
             (demo_world\<lparr>files := (files demo_world)([''repo'', ''notes.txt''] \<mapsto> ''1x1'')\<rparr>)))
         [''repo'', ''notes.txt''] = Some ''2x1''
   \<and> \<not> sublist ''1x2'' ''2x1''"
  by code_simp

section \<open>The substitution replaces every occurrence\<close>

text \<open>
  Claim C2. For every file text, template, old and new version, \<^verbatim>\<open>replace_version\<close> computes
  the new content as the file text in which every occurrence of the template rendered with
  the old version is replaced by the template rendered with the new version: the text is
  the list of segments between the occurrences met from the left, joined by the old
  rendered string, and the new content is the same segments joined by the new rendered
  string. The occurrences are replaced wherever they stand, whatever surrounds them. When
  the old rendered string is empty, the new one is put before every character and at the
  end, as Python does.
\<close>

theorem replace_version_replaces_every_occurrence:
  assumes "files w (resolve e p) = Some text"
    and "format_str ''version'' old tmpl = Inr old_text"
    and "format_str ''version'' new tmpl = Inr new_text"
  shows "new_content_of text tmpl old new = Inr (str_replace text old_text new_text)
     \<and> fst (replace_version e p tmpl old new False w) = Returned
     \<and> files (snd (replace_version e p tmpl old new False w))
           = (files w)(resolve e p \<mapsto> str_replace text old_text new_text)
     \<and> (if old_text = []
         then str_replace text old_text new_text = new_text @ concat (map (\<lambda>c. c # new_text) text)
         else \<exists>segs. segmented old_text segs \<and> text = join old_text segs
                \<and> str_replace text old_text new_text = join new_text segs)"
proof -
  have nc: "new_content_of text tmpl old new = Inr (str_replace text old_text new_text)"
    using assms(2,3) by (rule new_content_of_Inr)
  have run: "replace_version e p tmpl old new False w
       = (Returned, write_text e p (str_replace text old_text new_text)
                      (log (ReadText (resolve e p)) w))"
    using assms(1) nc by (rule replace_version_write)
  have segs: "\<exists>segs. segmented old_text segs \<and> text = join old_text segs
                \<and> str_replace text old_text new_text = join new_text segs"
    if ne: "old_text \<noteq> []"
    using replace_nonempty_segments [OF ne, of "text"] ne by (auto simp: str_replace_def)
  show ?thesis
    using nc run segs by (simp add: str_replace_def)
qed

theorem replace_version_replaces_every_occurrence_witness:
  "files demo_world (resolve demo_env (Path [''notes.txt''])) = Some ''v1 and v1!''
   \<and> format_str ''version'' ''1'' ''v{version}'' = Inr ''v1''
   \<and> format_str ''version'' ''2'' ''v{version}'' = Inr ''v2''
   \<and> files (snd (replace_version demo_env (Path [''notes.txt'']) ''v{version}'' ''1'' ''2'' False
                    demo_world)) [''repo'', ''notes.txt''] = Some ''v2 and v2!''
   \<and> segmented ''v1'' ['''', '' and '', ''!'']"
proof -
  have h1: "files demo_world (resolve demo_env (Path [''notes.txt''])) = Some ''v1 and v1!''"
    by code_simp
  have h2: "format_str ''version'' ''1'' ''v{version}'' = Inr ''v1''"
    by code_simp
  have h3: "format_str ''version'' ''2'' ''v{version}'' = Inr ''v2''"
    by code_simp
  have h4: "str_replace ''v1 and v1!'' ''v1'' ''v2'' = ''v2 and v2!''"
    by code_simp
  have h5: "resolve demo_env (Path [''notes.txt'']) = [''repo'', ''notes.txt'']"
    by code_simp
  have h6: "segmented ''v1'' ['''', '' and '', ''!'']"
    by code_simp
  from replace_version_replaces_every_occurrence [OF h1 h2 h3] h1 h2 h3 h6
  show ?thesis by (simp add: h4 h5)
qed

section \<open>The changelog guard\<close>

text \<open>
  Claim C3. A new version that is not in the changelog makes \<^verbatim>\<open>change_version\<close> raise
  before any location is read: \<open>change_version_guard\<close>. The exception is the one about
  the missing changelog entry when the version has no brace (\<open>absent_message_plain\<close>).
  The message is an f-string formatted once more by \<^verbatim>\<open>.format\<close>, and for a version with a
  brace this second formatting raises its own error: for the version \<^verbatim>\<open>{x}\<close> the run ends
  with \<^verbatim>\<open>KeyError: 'x'\<close>.
\<close>

theorem missing_changelog_entry_with_braces:
  "files demo_world (resolve demo_env (CHANGELOG demo_env)) = Some ''2.0.1, 2.0.0.1, 2.0.0''
   \<and> \<not> sublist ''{x}'' ''2.0.1, 2.0.0.1, 2.0.0''
   \<and> change_version demo_env demo_package ''{x}'' False demo_world
       = (Raised (KeyError ''x''), log (ReadText [''repo'', ''CHANGELOG.md'']) demo_world)"
proof -
  have h1: "files demo_world (resolve demo_env (CHANGELOG demo_env)) = Some ''2.0.1, 2.0.0.1, 2.0.0''"
    by code_simp
  have h2: "\<not> sublist ''{x}'' ''2.0.1, 2.0.0.1, 2.0.0''"
    by code_simp
  have h3: "absent_message ''{x}'' = KeyError ''x''"
    by code_simp
  have h4: "resolve demo_env (CHANGELOG demo_env) = [''repo'', ''CHANGELOG.md'']"
    by code_simp
  from change_version_guard [OF h1 h2, of demo_package False] h1 h2 h3 h4
  show ?thesis by simp
qed

section \<open>A dry run writes nothing\<close>

text \<open>
  Claim C4. With \<open>dry = True\<close> no file is changed, for every package and every new
  version: \<^verbatim>\<open>replace_version\<close> never writes its target file, and so neither do
  \<^verbatim>\<open>change_version\<close>, the interactive mode and the whole program. The files after the run
  are the files before it, and no write is logged.
\<close>

theorem dry_run_never_writes:
  "untouched w (snd (replace_version e p tmpl old new True w))
   \<and> untouched w (snd (change_version e self v True w))
   \<and> untouched w (snd (update_versions e True w))
   \<and> untouched w (snd (main e True args_package args_version w))"
  by (simp add: replace_version_dry_untouched change_version_dry_untouched
        update_versions_def visit_packages_dry_untouched main_dry_untouched)

theorem dry_run_never_writes_witness:
  "fst (change_version demo_env demo_package ''2.0.1'' True demo_world) = Returned
   \<and> files (snd (change_version demo_env demo_package ''2.0.1'' True demo_world)) = demo_files"
proof -
  have h: "fst (change_version demo_env demo_package ''2.0.1'' True demo_world) = Returned"
    by code_simp
  from dry_run_never_writes [of demo_world demo_env "Path []" "[]" "[]" "[]" demo_package "''2.0.1''"
      None None] h
  show ?thesis by (simp add: untouched_def demo_world_def)
qed

section \<open>A location that does not match is passed over silently\<close>



section \<open>An unknown package key\<close>

text \<open>
  Claim C6. In the single-package mode (a package key and a version are given) a key that
  is not in the registry raises \<^verbatim>\<open>KeyError\<close> at the lookup, before \<^verbatim>\<open>change_version\<close> is
  called: the world is unchanged, so no file is read or written.
\<close>

theorem unknown_package_key_raises_before_io:
  assumes "args_package = Some key" "key \<noteq> []" "key \<notin> fst ` set (PACKAGES e)"
    and "args_version = Some v" "v \<noteq> []"
  shows "main e args_dry args_package args_version w = (Raised (KeyError key), w)"
proof -
  have "map_of (PACKAGES e) key = None"
    using assms(3) by (simp add: map_of_eq_None_iff)
  with assms show ?thesis by (simp add: main_def truthy_def)
qed

theorem unknown_package_key_raises_before_io_witness:
  "''nope'' \<notin> fst ` set (PACKAGES demo_env)
   \<and> main demo_env False (Some ''nope'') (Some ''1.0'') demo_world
       = (Raised (KeyError ''nope''), demo_world)"
proof -
  have h: "''nope'' \<notin> fst ` set (PACKAGES demo_env)"
    by code_simp
  from unknown_package_key_raises_before_io [OF refl _ h refl, of "''1.0''" False demo_world] h
  show ?thesis by simp
qed

section \<open>Applying the same change again\<close>




section \<open>The interactive mode\<close>

text \<open>
  Claim C8, amended. The interactive mode visits the packages in the order of the
  registry for as long as no visit raises; an error (the end of the input, the changelog
  guard, an error of the substitution) ends the run and the packages behind are not
  visited. For each package it reaches, it prints the display name and the current
  version, prompts for a replacement, skips the package when the response stripped of
  surrounding whitespace is empty (no substitution is invoked for it), and otherwise
  invokes \<^verbatim>\<open>change_version\<close> with the stripped response and the given \<open>dry\<close> flag.
\<close>

theorem interactive_mode_visits_in_registry_order:
  assumes "map snd (PACKAGES e) = before @ package # after"
  shows "case visit_packages e before dry w of
           (Raised err, w1) \<Rightarrow> update_versions e dry w = (Raised err, w1)
         | (Returned, w1) \<Rightarrow>
             (case stdin w1 of
                [] \<Rightarrow> update_versions e dry w = (Raised EOFError, prompted package w1)
              | line # rest \<Rightarrow>
                  update_versions e dry w =
                    (if strip line = []
                     then visit_packages e after dry (prompted package w1\<lparr>stdin := rest\<rparr>)
                     else case change_version e package (strip line) dry
                                 (prompted package w1\<lparr>stdin := rest\<rparr>) of
                            (Raised err, w2) \<Rightarrow> (Raised err, w2)
                          | (Returned, w2) \<Rightarrow> visit_packages e after dry w2))"
proof (cases "visit_packages e before dry w")
  case (Pair r w1)
  show ?thesis
  proof (cases r)
    case (Raised err)
    with Pair assms show ?thesis
      by (simp add: update_versions_def visit_packages_append)
  next
    case Returned
    show ?thesis
    proof (cases "stdin w1")
      case Nil
      with Pair Returned assms show ?thesis
        by (simp add: update_versions_def visit_packages_append maybe_change_version_eof)
    next
      case (Cons line rest)
      with Pair Returned assms show ?thesis
        by (simp add: update_versions_def visit_packages_append maybe_change_version_line)
    qed
  qed
qed

theorem interactive_mode_visits_in_registry_order_witness:
  "map snd (PACKAGES demo_env) = [] @ demo_package # tl (map snd (PACKAGES demo_env))
   \<and> strip ''  '' = []
   \<and> update_versions demo_env False demo_session =
       visit_packages demo_env (tl (map snd (PACKAGES demo_env))) False
         (prompted demo_package demo_session\<lparr>stdin := [''9.9.9'', ''2.0.1'', ''2.0.1'']\<rparr>)"
proof -
  have h1: "map snd (PACKAGES demo_env) = [] @ demo_package # tl (map snd (PACKAGES demo_env))"
    by (simp add: demo_package_def PACKAGES_def)
  have h2: "strip ''  '' = []" by code_simp
  have h3: "stdin demo_session = [''  '', ''9.9.9'', ''2.0.1'', ''2.0.1'']"
    by (simp add: demo_session_def)
  from interactive_mode_visits_in_registry_order [OF h1, of False demo_session] h1 h2 h3
  show ?thesis by simp
qed

text \<open>
  Claim C8 as stated fails on the sample registry of four packages with the responses
  \<open>''  ''\<close> and \<open>''9.9.9''\<close>: the first response is not empty, and yet the first package is
  skipped (nothing is read between its prompt and the next heading); the second response
  is not in the changelog, the guard raises, and the third and fourth package are never
  announced although two lines of input are left.
\<close>

theorem interactive_mode_counterexample:
  "length (PACKAGES demo_env) = 4
   \<and> stdin demo_session = [''  '', ''9.9.9'', ''2.0.1'', ''2.0.1'']
   \<and> ''  '' \<noteq> []
   \<and> fst (update_versions demo_env False demo_session)
       = Raised (Exception (''9.9.9 is absent in CHANGELOG.md file.''
                              @ '' Please update the changelog first.''))
   \<and> events (snd (update_versions demo_env False demo_session))
       = [Print ''Current jupyter-lsp (Python backend) version is: 2.0.0'',
          Input ''Change it to [default=skip]: '',
          Print ''Current jupyterlab-lsp (frontend package) version is: 3.0.0'',
          Input ''Change it to [default=skip]: '',
          ReadText [''repo'', ''CHANGELOG.md'']]
   \<and> stdin (snd (update_versions demo_env False demo_session)) = [''2.0.1'', ''2.0.1'']"
  by code_simp

section \<open>The preview of the dry run\<close>

text \<open>
  Claim C9, amended. With \<open>dry = True\<close>, for each location whose file is read and whose
  template renders, \<^verbatim>\<open>replace_version\<close> prints a heading that names the file and then a
  context-style diff between the old and the new content of the file: the lines of
  \<^verbatim>\<open>difflib.context_diff\<close> with four lines of context, from \<^verbatim>\<open>current\<close> to
  \<^verbatim>\<open>new (proposed update)\<close>, joined by line ends. The diff is empty, or it opens with the
  lines \<^verbatim>\<open>*** current\<close> and \<^verbatim>\<open>--- new (proposed update)\<close> and consists of hunks in the
  context format.
\<close>

theorem dry_run_prints_context_diff:
  assumes "files w (resolve e p) = Some txt"
    and "format_str ''version'' old tmpl = Inr old_text"
    and "format_str ''version'' new tmpl = Inr new_text"
    and "displayable e p"
  shows "let diff = context_diff (splitlines txt) (splitlines (str_replace txt old_text new_text))
                      ''current'' ''new (proposed update)'' 4
         in fst (replace_version e p tmpl old new True w) = Returned
            \<and> events (snd (replace_version e p tmpl old new True w)) =
                events w @
                  [ReadText (resolve e p),
                   Print ([CHR 0x0A] @ ''## Summary of changes proposed to ''
                            @ path_str (if absolute p
                                then \<lparr>absolute = False, parts = drop (length (ROOT e)) (parts p)\<rparr>
                                else p)),
                   Print (join [CHR 0x0A] diff @ [CHR 0x0A])]
            \<and> context_style ''current'' ''new (proposed update)'' diff"
proof -
  have nc: "new_content_of txt tmpl old new = Inr (str_replace txt old_text new_text)"
    using assms(2,3) by (rule new_content_of_Inr)
  show ?thesis
    unfolding Let_def replace_version_print [OF assms(1) nc assms(4)]
    by (simp add: print_def log_def context_diff_style)
qed

theorem dry_run_prints_context_diff_witness:
  "files demo_world (resolve demo_env (PIPELINE demo_env))
     = Some (''PY_JLSP_VERSION: 2.0.0'' @ [CHR 0x0A] @ ''JS_JLLSP_VERSION: 3.0.0'')
   \<and> format_str ''version'' ''2.0.0'' ''PY_JLSP_VERSION: {version}'' = Inr ''PY_JLSP_VERSION: 2.0.0''
   \<and> format_str ''version'' ''2.0.1'' ''PY_JLSP_VERSION: {version}'' = Inr ''PY_JLSP_VERSION: 2.0.1''
   \<and> displayable demo_env (PIPELINE demo_env)
   \<and> context_diff
         (splitlines (''PY_JLSP_VERSION: 2.0.0'' @ [CHR 0x0A] @ ''JS_JLLSP_VERSION: 3.0.0''))
         (splitlines (str_replace (''PY_JLSP_VERSION: 2.0.0'' @ [CHR 0x0A] @ ''JS_JLLSP_VERSION: 3.0.0'')
                        ''PY_JLSP_VERSION: 2.0.0'' ''PY_JLSP_VERSION: 2.0.1''))
         ''current'' ''new (proposed update)'' 4 = demo_diff
   \<and> context_style ''current'' ''new (proposed update)'' demo_diff
   \<and> events (snd (replace_version demo_env (PIPELINE demo_env) ''PY_JLSP_VERSION: {version}''
                     ''2.0.0'' ''2.0.1'' True demo_world))
       = [ReadText [''repo'', ''ci.yml''],
          Print ([CHR 0x0A] @ ''## Summary of changes proposed to ci.yml''),
          Print (join [CHR 0x0A] demo_diff @ [CHR 0x0A])]"
proof -
  have h1: "files demo_world (resolve demo_env (PIPELINE demo_env))
     = Some (''PY_JLSP_VERSION: 2.0.0'' @ [CHR 0x0A] @ ''JS_JLLSP_VERSION: 3.0.0'')"
    by code_simp
  have h2: "format_str ''version'' ''2.0.0'' ''PY_JLSP_VERSION: {version}''
              = Inr ''PY_JLSP_VERSION: 2.0.0''"
    by code_simp
  have h3: "format_str ''version'' ''2.0.1'' ''PY_JLSP_VERSION: {version}''
              = Inr ''PY_JLSP_VERSION: 2.0.1''"
    by code_simp
  have h4: "displayable demo_env (PIPELINE demo_env)"
    by code_simp
  have d: "context_diff
         (splitlines (''PY_JLSP_VERSION: 2.0.0'' @ [CHR 0x0A] @ ''JS_JLLSP_VERSION: 3.0.0''))
         (splitlines (str_replace (''PY_JLSP_VERSION: 2.0.0'' @ [CHR 0x0A] @ ''JS_JLLSP_VERSION: 3.0.0'')
                        ''PY_JLSP_VERSION: 2.0.0'' ''PY_JLSP_VERSION: 2.0.1''))
         ''current'' ''new (proposed update)'' 4 = demo_diff"
    by code_simp
  have p: "[CHR 0x0A] @ ''## Summary of changes proposed to ''
             @ path_str (if absolute (PIPELINE demo_env)
                 then \<lparr>absolute = False,
                       parts = drop (length (ROOT demo_env)) (parts (PIPELINE demo_env))\<rparr>
                 else PIPELINE demo_env)
           = [CHR 0x0A] @ ''## Summary of changes proposed to ci.yml''"
    by code_simp
  have r: "resolve demo_env (PIPELINE demo_env) = [''repo'', ''ci.yml'']"
    by code_simp
  have ev: "events demo_world = []"
    by (simp add: demo_world_def)
  from dry_run_prints_context_diff [OF h1 h2 h3 h4]
  have "events (snd (replace_version demo_env (PIPELINE demo_env) ''PY_JLSP_VERSION: {version}''
                     ''2.0.0'' ''2.0.1'' True demo_world))
       = [ReadText [''repo'', ''ci.yml''],
          Print ([CHR 0x0A] @ ''## Summary of changes proposed to ci.yml''),
          Print (join [CHR 0x0A] demo_diff @ [CHR 0x0A])]
     \<and> context_style ''current'' ''new (proposed update)'' demo_diff"
    unfolding Let_def d p r ev by simp
  with h1 h2 h3 h4 d show ?thesis by blast
qed

text \<open>
  Claim C9 as stated fails: the preview of the change from 2.0.0 to 2.0.1 in the pipeline
  file opens with \<^verbatim>\<open>*** current\<close> and has no \<^verbatim>\<open>+++\<close> and no \<^verbatim>\<open>@@\<close> line; it is not in the
  unified format.
\<close>

theorem preview_is_not_unified_counterexample:
  "events (snd (replace_version demo_env (PIPELINE demo_env) ''PY_JLSP_VERSION: {version}''
                     ''2.0.0'' ''2.0.1'' True demo_world))
       = [ReadText [''repo'', ''ci.yml''],
          Print ([CHR 0x0A] @ ''## Summary of changes proposed to ci.yml''),
          Print (join [CHR 0x0A] demo_diff @ [CHR 0x0A])]
   \<and> hd demo_diff = ''*** current'' @ [CHR 0x0A]
   \<and> \<not> unified_style demo_diff"
  by code_simp

section \<open>The response to the prompt is stripped\<close>

text \<open>
  Claim C10. In the interactive mode the line typed at the prompt is stripped of leading
  and trailing whitespace before it is tested: a response of whitespace only skips the
  package, and any other response is passed to \<^verbatim>\<open>change_version\<close> stripped, so that the
  version neither begins nor ends with whitespace.
\<close>

theorem prompt_response_is_stripped:
  assumes "stdin w = line # rest"
  shows "(list_all isspace line \<longrightarrow>
            maybe_change_version e self dry w =
              (Returned,
               log (Input ''Change it to [default=skip]: '')
                 (print (''Current '' @ name self @ '' version is: '' @ current_version self) w
                    \<lparr>stdin := rest\<rparr>)))
       \<and> (\<not> list_all isspace line \<longrightarrow>
            maybe_change_version e self dry w =
              change_version e self (strip line) dry
                (log (Input ''Change it to [default=skip]: '')
                   (print (''Current '' @ name self @ '' version is: '' @ current_version self) w
                      \<lparr>stdin := rest\<rparr>))
            \<and> strip line \<noteq> []
            \<and> \<not> isspace (hd (strip line)) \<and> \<not> isspace (last (strip line)))"
  using assms strip_ends [of line]
  by (simp add: maybe_change_version_def input_Cons strip_Nil_iff)

theorem prompt_response_is_stripped_witness:
  "stdin (demo_world\<lparr>stdin := ['' 2.0.1 '', ''  '']\<rparr>) = '' 2.0.1 '' # [''  '']
   \<and> \<not> list_all isspace '' 2.0.1 '' \<and> strip '' 2.0.1 '' = ''2.0.1''
   \<and> maybe_change_version demo_env demo_package False (demo_world\<lparr>stdin := ['' 2.0.1 '', ''  '']\<rparr>)
       = change_version demo_env demo_package ''2.0.1'' False
           (log (Input ''Change it to [default=skip]: '')
              (print (''Current '' @ name demo_package @ '' version is: ''
                        @ current_version demo_package)
                 (demo_world\<lparr>stdin := ['' 2.0.1 '', ''  '']\<rparr>)
               \<lparr>stdin := [''  '']\<rparr>))"
proof -
  have h1: "stdin (demo_world\<lparr>stdin := ['' 2.0.1 '', ''  '']\<rparr>) = '' 2.0.1 '' # [''  '']"
    by simp
  have h2: "\<not> list_all isspace '' 2.0.1 ''" by code_simp
  have h3: "strip '' 2.0.1 '' = ''2.0.1''" by code_simp
  from prompt_response_is_stripped [OF h1, of demo_env demo_package False] h1 h2 h3
  show ?thesis by simp
qed

end
